theory Spec2Isabelle
  imports Main
begin

section \<open>JavaScript values used by the seen-post cache\<close>

text \<open>
  A JavaScript \<^verbatim>\<open>Map<K, V | undefined>\<close> is an association list in insertion order with
  pairwise distinct keys. The value \<open>None\<close> is \<^verbatim>\<open>undefined\<close>: a key can be present and
  hold \<^verbatim>\<open>undefined\<close>, which \<^verbatim>\<open>Map.has\<close> tells apart from a key that was never set.
\<close>

type_synonym ('k, 'v) js_map = "('k \<times> 'v option) list"

definition map_has :: "('k, 'v) js_map \<Rightarrow> 'k \<Rightarrow> bool" where
  "map_has m key = (map_of m key \<noteq> None)"

definition map_get :: "('k, 'v) js_map \<Rightarrow> 'k \<Rightarrow> 'v option" where
  "map_get m key = (case map_of m key of None \<Rightarrow> None | Some value \<Rightarrow> value)"

text \<open>\<^verbatim>\<open>Map.set\<close> overwrites the value of a present key in place and appends a new key.\<close>

fun map_set :: "('k, 'v) js_map \<Rightarrow> 'k \<Rightarrow> 'v option \<Rightarrow> ('k, 'v) js_map" where
  "map_set [] key value = [(key, value)]"
| "map_set ((k, v) # m) key value =
     (if k = key then (key, value) # m else (k, v) # map_set m key value)"

definition map_values :: "('k, 'v) js_map \<Rightarrow> 'v option list" where
  "map_values m = map snd m"

text \<open>
  A settled promise: fulfilled with a value, or rejected with a reason. A \<^verbatim>\<open>then\<close> with
  one callback runs the callback on fulfilment and passes a rejection on unchanged.
\<close>

datatype ('e, 'a) promise = Fulfilled 'a | Rejected 'e

section \<open>\<^verbatim>\<open>IdbWithInMemoryCache\<close> (seen-posts.ts)\<close>

text \<open>
  The durable store \<^verbatim>\<open>IdbKV\<close> is imported from \<^verbatim>\<open>./idb\<close> and is not part of the
  sources at hand. The model records every call made on \<^verbatim>\<open>this.idb\<close>, oldest first, and
  takes the settlement of each read promise as a parameter of the operation.
\<close>

datatype ('k, 'v) idb_call = IdbSet 'k 'v | IdbGet 'k | IdbGetBatch "'k list"

record ('k, 'v) idb_cache =
  cache :: "('k, 'v) js_map"
  idb_calls :: "('k, 'v) idb_call list"

text \<open>The constructor: an empty memory map over a fresh store handle.\<close>

definition new_cache :: "('k, 'v) idb_cache" where
  "new_cache = \<lparr>cache = [], idb_calls = []\<rparr>"

text \<open>\<^verbatim>\<open>set(key, value)\<close>: memory first, then the store write, which is not awaited.\<close>

definition set_kv :: "('k, 'v) idb_cache \<Rightarrow> 'k \<Rightarrow> 'v \<Rightarrow> ('k, 'v) idb_cache" where
  "set_kv s key value =
     s\<lparr>cache := map_set (cache s) key (Some value),
       idb_calls := idb_calls s @ [IdbSet key value]\<rparr>"

text \<open>
  \<^verbatim>\<open>get(key)\<close> in two steps. The synchronous part answers from memory
  (\<open>Some value\<close> is \<^verbatim>\<open>Promise.resolve(value)\<close>) or calls \<^verbatim>\<open>this.idb.get(key)\<close> and leaves
  the promise pending (\<open>None\<close>). The callback of \<^verbatim>\<open>then\<close> runs when the store's promise
  is fulfilled; a rejection skips it.
\<close>

definition get_sync :: "('k, 'v) idb_cache \<Rightarrow> 'k \<Rightarrow> 'v option option \<times> ('k, 'v) idb_cache" where
  "get_sync s key =
     (if map_has (cache s) key then (Some (map_get (cache s) key), s)
      else (None, s\<lparr>idb_calls := idb_calls s @ [IdbGet key]\<rparr>))"

definition get_then ::
  "('e, 'v option) promise \<Rightarrow> ('k, 'v) idb_cache \<Rightarrow> 'k
     \<Rightarrow> ('e, 'v option) promise \<times> ('k, 'v) idb_cache" where
  "get_then r s key =
     (case r of
        Fulfilled value \<Rightarrow> (Fulfilled value, s\<lparr>cache := map_set (cache s) key value\<rparr>)
      | Rejected e \<Rightarrow> (Rejected e, s))"

text \<open>\<^verbatim>\<open>get(key)\<close> awaited with nothing running in between; \<open>r\<close> settles the store's read.\<close>

definition get ::
  "('e, 'v option) promise \<Rightarrow> ('k, 'v) idb_cache \<Rightarrow> 'k
     \<Rightarrow> ('e, 'v option) promise \<times> ('k, 'v) idb_cache" where
  "get r s key =
     (case get_sync s key of
        (Some value, s') \<Rightarrow> (Fulfilled value, s')
      | (None, s') \<Rightarrow> get_then r s' key)"

text \<open>
  \<^verbatim>\<open>getBatch(keys)\<close>. The first loop copies memory into \<^verbatim>\<open>result\<close> until it meets a key
  that memory does not hold; \<open>None\<close> is the \<^verbatim>\<open>break\<close> with \<^verbatim>\<open>readAllKeysFromCache = false\<close>.
\<close>

fun read_from_cache ::
  "('k, 'v) js_map \<Rightarrow> 'k list \<Rightarrow> ('k, 'v) js_map \<Rightarrow> ('k, 'v) js_map option" where
  "read_from_cache c [] result = Some result"
| "read_from_cache c (key # keys) result =
     (if map_has c key then read_from_cache c keys (map_set result key (map_get c key))
      else None)"

text \<open>The second loop writes every pair of the store's batch into memory, in the batch's order.\<close>

fun write_batch :: "('k, 'v) js_map \<Rightarrow> ('k, 'v) js_map \<Rightarrow> ('k, 'v) js_map" where
  "write_batch c [] = c"
| "write_batch c ((key, value) # batch) = write_batch (map_set c key value) batch"

definition getBatch_sync ::
  "('k, 'v) idb_cache \<Rightarrow> 'k list \<Rightarrow> ('k, 'v) js_map option \<times> ('k, 'v) idb_cache" where
  "getBatch_sync s keys =
     (case read_from_cache (cache s) keys [] of
        Some result \<Rightarrow> (Some result, s)
      | None \<Rightarrow> (None, s\<lparr>idb_calls := idb_calls s @ [IdbGetBatch keys]\<rparr>))"

definition getBatch_then ::
  "('e, ('k, 'v) js_map) promise \<Rightarrow> ('k, 'v) idb_cache
     \<Rightarrow> ('e, ('k, 'v) js_map) promise \<times> ('k, 'v) idb_cache" where
  "getBatch_then r s =
     (case r of
        Fulfilled batch \<Rightarrow> (Fulfilled batch, s\<lparr>cache := write_batch (cache s) batch\<rparr>)
      | Rejected e \<Rightarrow> (Rejected e, s))"

definition getBatch ::
  "('e, ('k, 'v) js_map) promise \<Rightarrow> ('k, 'v) idb_cache \<Rightarrow> 'k list
     \<Rightarrow> ('e, ('k, 'v) js_map) promise \<times> ('k, 'v) idb_cache" where
  "getBatch r s keys =
     (case getBatch_sync s keys of
        (Some result, s') \<Rightarrow> (Fulfilled result, s')
      | (None, s') \<Rightarrow> getBatch_then r s')"

text \<open>
  What can happen to a cache, one step after the other. \<open>Get\<close> and \<open>GetBatch\<close> are reads
  that are awaited: nothing runs between the call and the callback, and the settlement of
  the store's promise is used only if the read reaches the store. \<open>GetCall\<close> and
  \<open>GetBatchCall\<close> are the synchronous part alone, which leaves the store's read pending;
  \<open>GetSettled\<close> and \<open>GetBatchSettled\<close> are the settlement of a read that was left pending
  earlier, which runs the callback of \<^verbatim>\<open>then\<close> on fulfilment. Other steps may lie between
  a call and its settlement.
\<close>

datatype ('e, 'k, 'v) cache_op =
    Set 'k 'v
  | Get 'k "('e, 'v option) promise"
  | GetBatch "'k list" "('e, ('k, 'v) js_map) promise"
  | GetCall 'k
  | GetSettled 'k "('e, 'v option) promise"
  | GetBatchCall "'k list"
  | GetBatchSettled "('e, ('k, 'v) js_map) promise"

fun exec :: "('e, 'k, 'v) cache_op \<Rightarrow> ('k, 'v) idb_cache \<Rightarrow> ('k, 'v) idb_cache" where
  "exec (Set key v) s = set_kv s key v"
| "exec (Get key r) s = snd (get r s key)"
| "exec (GetBatch keys r) s = snd (getBatch r s keys)"
| "exec (GetCall key) s = snd (get_sync s key)"
| "exec (GetSettled key r) s = snd (get_then r s key)"
| "exec (GetBatchCall keys) s = snd (getBatch_sync s keys)"
| "exec (GetBatchSettled r) s = snd (getBatch_then r s)"

definition run :: "('e, 'k, 'v) cache_op list \<Rightarrow> ('k, 'v) idb_cache \<Rightarrow> ('k, 'v) idb_cache" where
  "run ops s = fold exec ops s"

text \<open>
  Whether a step can write the memory entry of a resident key \<open>k\<close> anew: a \<open>set\<close> of
  \<open>k\<close>, the fulfilment of a read of \<open>k\<close> that was pending, and a fulfilled multi-get whose
  response has a pair for \<open>k\<close>. An awaited \<open>get\<close> of a resident key is answered from memory.
\<close>

fun overwrites :: "'k \<Rightarrow> ('e, 'k, 'v) cache_op \<Rightarrow> bool" where
  "overwrites k (Set key v) = (key = k)"
| "overwrites k (Get key r) = False"
| "overwrites k (GetBatch keys (Fulfilled batch)) = (map_of batch k \<noteq> None)"
| "overwrites k (GetBatch keys (Rejected e)) = False"
| "overwrites k (GetCall key) = False"
| "overwrites k (GetSettled key (Fulfilled x)) = (key = k)"
| "overwrites k (GetSettled key (Rejected e)) = False"
| "overwrites k (GetBatchCall keys) = False"
| "overwrites k (GetBatchSettled (Fulfilled batch)) = (map_of batch k \<noteq> None)"
| "overwrites k (GetBatchSettled (Rejected e)) = False"

text \<open>
  Modelled from the spec: \<^verbatim>\<open>get(key)\<close> of the durable store \<^verbatim>\<open>IdbKV\<close>, whose code
  (\<^verbatim>\<open>./idb\<close>) is not in the sources. A store holding the content \<open>st\<close> fulfils the read
  with the value of the key, or with \<^verbatim>\<open>undefined\<close> when it holds none.
\<close>

definition idb_get :: "('k \<rightharpoonup> 'v) \<Rightarrow> 'k \<Rightarrow> ('e, 'v option) promise" where
  "idb_get st key = Fulfilled (st key)"

text \<open>
  Modelled from the spec: \<^verbatim>\<open>getBatch(keys)\<close> of the durable store \<^verbatim>\<open>IdbKV\<close>, whose code
  is not in the sources. The store fulfils the read with a mapping that gives every
  requested key, in the order of the request, its value or \<^verbatim>\<open>undefined\<close>.
\<close>

definition idb_getBatch :: "('k \<rightharpoonup> 'v) \<Rightarrow> 'k list \<Rightarrow> ('e, ('k, 'v) js_map) promise" where
  "idb_getBatch st keys = Fulfilled (fold (\<lambda>key m. map_set m key (st key)) keys [])"

section \<open>The seen-post tracker (seen-posts.ts)\<close>

text \<open>
  A string is the list of its code units. The record stored for a post; \<^verbatim>\<open>lastSeenAt\<close> is
  the clock reading of \<^verbatim>\<open>new Date()\<close>, \<^verbatim>\<open>lastSeenFeed\<close> the feed descriptor.
\<close>

record post_ref =
  uri :: string
  cid :: string

record seen_post =
  post :: post_ref
  lastSeenAt :: nat
  lastSeenFeed :: string

text \<open>The template literal \<^verbatim>\<open>`${uri}:${cid}`\<close> of the three tracker functions.\<close>

definition seen_key :: "post_ref \<Rightarrow> string" where
  "seen_key p = uri p @ '':'' @ cid p"

definition setSeenPost ::
  "nat \<Rightarrow> (string, seen_post) idb_cache \<Rightarrow> post_ref \<Rightarrow> string \<Rightarrow> (string, seen_post) idb_cache" where
  "setSeenPost now s p feed =
     set_kv s (seen_key p)
       \<lparr>post = \<lparr>uri = uri p, cid = cid p\<rparr>, lastSeenAt = now, lastSeenFeed = feed\<rparr>"

text \<open>
  The effect of \<^verbatim>\<open>useIsPostSeen\<close>, run to the end of its promise chain. \<open>isSeen\<close> is the
  React state before the effect (\<^verbatim>\<open>useState(false)\<close> at first). The result is the reason
  of an unhandled rejection of the chain if there is one, the React state after, and the
  cache. The chain has no rejection handler: a rejected \<^verbatim>\<open>get\<close> skips \<^verbatim>\<open>setIsSeen\<close>.
\<close>

definition useIsPostSeen ::
  "('e, seen_post option) promise \<Rightarrow> (string, seen_post) idb_cache \<Rightarrow> post_ref \<Rightarrow> bool
     \<Rightarrow> 'e option \<times> bool \<times> (string, seen_post) idb_cache" where
  "useIsPostSeen r s p isSeen =
     (case get r s (seen_key p) of
        (Fulfilled seenPost, s') \<Rightarrow> (None, seenPost \<noteq> None, s')
      | (Rejected e, s') \<Rightarrow> (Some e, isSeen, s'))"

text \<open>
  The effect of \<^verbatim>\<open>useIsSliceSeen\<close>. The argument of the first \<^verbatim>\<open>console.log\<close> calls
  \<^verbatim>\<open>seenPosts.get\<close> for every item; these calls are made, and their store reads issued,
  before \<^verbatim>\<open>getBatch\<close> runs its synchronous part, and none of their callbacks has run by
  then. \<open>gets_sync\<close> returns the keys whose read is pending.
\<close>

fun gets_sync :: "('k, 'v) idb_cache \<Rightarrow> 'k list \<Rightarrow> 'k list \<times> ('k, 'v) idb_cache" where
  "gets_sync s [] = ([], s)"
| "gets_sync s (key # keys) =
     (case get_sync s key of
        (Some v, s') \<Rightarrow> gets_sync s' keys
      | (None, s') \<Rightarrow> (case gets_sync s' keys of (pending, s'') \<Rightarrow> (key # pending, s'')))"

text \<open>The pending reads settle in the order of their issue; \<open>rg key\<close> settles the read of a key.\<close>

fun gets_then ::
  "('k \<Rightarrow> ('e, 'v option) promise) \<Rightarrow> ('k, 'v) idb_cache \<Rightarrow> 'k list \<Rightarrow> ('k, 'v) idb_cache" where
  "gets_then rg s [] = s"
| "gets_then rg s (key # pending) = gets_then rg (snd (get_then (rg key) s key)) pending"

text \<open>
  \<^verbatim>\<open>!!seenPost\<close> holds of a record and fails of \<^verbatim>\<open>undefined\<close>. \<open>rb\<close> settles the store's
  multi-get, after the single reads.
\<close>

definition useIsSliceSeen ::
  "(string \<Rightarrow> ('e, seen_post option) promise) \<Rightarrow> ('e, (string, seen_post) js_map) promise
     \<Rightarrow> (string, seen_post) idb_cache \<Rightarrow> post_ref list \<Rightarrow> bool
     \<Rightarrow> 'e option \<times> bool \<times> (string, seen_post) idb_cache" where
  "useIsSliceSeen rg rb s items isSeen =
     (let keys = map seen_key items in
      if length keys = 0 then (None, isSeen, s)
      else
        (case gets_sync s keys of (pending, s1) \<Rightarrow>
           (case getBatch_sync s1 keys of
              (Some seenPostMap, s2) \<Rightarrow>
                (None, list_all (\<lambda>seenPost. seenPost \<noteq> None) (map_values seenPostMap),
                 gets_then rg s2 pending)
            | (None, s2) \<Rightarrow>
                (case getBatch_then rb (gets_then rg s2 pending) of
                   (Fulfilled seenPostMap, s3) \<Rightarrow>
                     (None, list_all (\<lambda>seenPost. seenPost \<noteq> None) (map_values seenPostMap), s3)
                 | (Rejected e, s3) \<Rightarrow> (Some e, isSeen, s3)))))"

section \<open>Alt text through the proxy (alt-text.ts)\<close>

definition MAX_ALT_TEXT_LENGTH :: nat where
  "MAX_ALT_TEXT_LENGTH = 2000"

definition ABSOLUTE_MAX_LENGTH :: nat where
  "ABSOLUTE_MAX_LENGTH = 5000"

text \<open>
  String operations of JavaScript: \<^verbatim>\<open>s.includes(t)\<close>, \<^verbatim>\<open>s.toLowerCase()\<close> on the letters
  A to Z, the decimal form of a number in a template literal, and \<^verbatim>\<open>s.split('/')[1]\<close>,
  which is \<^verbatim>\<open>undefined\<close> when \<open>s\<close> has no slash. \<^verbatim>\<open>s.substring(0, n)\<close> is \<open>take n s\<close>.
\<close>

fun includes_str :: "string \<Rightarrow> string \<Rightarrow> bool" where
  "includes_str [] t = (t = [])"
| "includes_str (c # s) t = (take (length t) (c # s) = t \<or> includes_str s t)"

definition toLowerCase :: "string \<Rightarrow> string" where
  "toLowerCase s =
     map (\<lambda>c. if (65::nat) \<le> of_char c \<and> of_char c \<le> (90::nat)
              then char_of (of_char c + (32::nat)) else c) s"

fun show_nat :: "nat \<Rightarrow> string" where
  "show_nat n =
     (if n < 10 then [char_of (48 + n)] else show_nat (n div 10) @ [char_of (48 + n mod 10)])"

definition split_slash_1 :: "string \<Rightarrow> string option" where
  "split_slash_1 s =
     (case dropWhile (\<lambda>c. c \<noteq> CHR ''/'') s of
        [] \<Rightarrow> None
      | c # rest \<Rightarrow> Some (takeWhile (\<lambda>c. c \<noteq> CHR ''/'') rest))"

text \<open>
  A value read from a parsed JSON body: \<^verbatim>\<open>undefined\<close> (the property is missing), a string,
  or another value (\<^verbatim>\<open>null\<close>, a boolean, a number, an array, an object). Of a value that
  is not a string the code observes three things only, and these stand for the value:
  whether it is truthy, whether \<^verbatim>\<open>value.length + condensedNote.length <= MAX_ALT_TEXT_LENGTH\<close>
  holds, and the string that \<^verbatim>\<open>+\<close> converts it to.
\<close>

datatype js_value = Undefined | Str string | Other bool bool string

fun truthy :: "js_value \<Rightarrow> bool" where
  "truthy Undefined = False"
| "truthy (Str s) = (s \<noteq> [])"
| "truthy (Other t f c) = t"

fun string_of :: "js_value \<Rightarrow> string" where
  "string_of Undefined = ''undefined''"
| "string_of (Str s) = s"
| "string_of (Other t f c) = c"

text \<open>
  What the remote endpoint is to the code. A thrown value has a name and a message. A parsed
  body gives the values of its properties \<open>altText\<close> and \<open>error\<close>; a body that is not an
  object gives \<^verbatim>\<open>undefined\<close> for both (of a \<^verbatim>\<open>null\<close> body \<^verbatim>\<open>condenseAltText\<close> reads the
  property inside its \<^verbatim>\<open>try\<close>, and the \<^verbatim>\<open>catch\<close> truncates as the falsy case does). A
  response carries \<^verbatim>\<open>ok\<close>, \<^verbatim>\<open>status\<close>, \<^verbatim>\<open>statusText\<close>, the outcome of \<^verbatim>\<open>json()\<close> and
  that of \<^verbatim>\<open>text()\<close> (\<open>None\<close> when it rejects). A request is one of the three bodies the
  code posts; \<open>fetch\<close> maps a request to a thrown value or a response. A timeout is a
  \<open>fetch\<close> that throws \<^verbatim>\<open>AbortError\<close>.
\<close>

datatype exn = Exn (name: string) (message: string)

datatype json_body = Json (altText: js_value) (error: js_value)

datatype response =
  Response (ok: bool) (status: nat) (statusText: string) (json: "exn + json_body")
    (body_text: "string option")

datatype request =
    ProxyRequest string string bool string nat
  | SimpleRequest string string bool string
  | CondenseRequest string string nat

type_synonym fetch = "request \<Rightarrow> exn + response"

text \<open>\<^verbatim>\<open>PortResponse\<close>: an object with the property \<^verbatim>\<open>altText\<close> or with the property
  \<^verbatim>\<open>error\<close>, holding whatever value the code put there.\<close>

datatype port_response = AltText js_value | Error js_value

text \<open>\<^verbatim>\<open>CLOUD_FUNCTION_URL\<close> is read from the environment: unset, or a string. It is falsy when
  unset or empty.\<close>

definition url_set :: "string option \<Rightarrow> bool" where
  "url_set url = (case url of None \<Rightarrow> False | Some u \<Rightarrow> u \<noteq> [])"

text \<open>The fallback of \<^verbatim>\<open>condenseAltText\<close>: \<^verbatim>\<open>originalText.substring(0, MAX_ALT_TEXT_LENGTH - 3) + '...'\<close>.\<close>

definition truncated :: "string \<Rightarrow> string" where
  "truncated originalText = take (MAX_ALT_TEXT_LENGTH - 3) originalText @ ''...''"

text \<open>The object \<^verbatim>\<open>condensingRequest\<close> built by \<^verbatim>\<open>condenseAltText\<close>.\<close>

definition condensingRequest :: "string \<Rightarrow> bool \<Rightarrow> request" where
  "condensingRequest originalText isVideo =
     (let targetLength = MAX_ALT_TEXT_LENGTH - 100;
          mediaType = (if isVideo then ''video'' else ''image'');
          directive =
            ''You are an expert at writing concise, informative alt text. Please condense the following ''
            @ mediaType @ '' description to be no more than '' @ show_nat targetLength
            @ '' characters while preserving the most important details. The description needs to be accessible and useful for screen readers:'';
          safeOriginalText =
            (if length originalText > ABSOLUTE_MAX_LENGTH
             then take (ABSOLUTE_MAX_LENGTH - 100) originalText
                    @ ''... [content truncated for processing]''
             else originalText)
      in CondenseRequest directive safeOriginalText targetLength)"

text \<open>
  \<^verbatim>\<open>condenseAltText\<close> returns \<^verbatim>\<open>responseData.altText\<close> as it is when the response is
  \<^verbatim>\<open>ok\<close> and the value is truthy, and the truncation in every other case.
\<close>

definition condenseAltText :: "string option \<Rightarrow> fetch \<Rightarrow> string \<Rightarrow> bool \<Rightarrow> js_value" where
  "condenseAltText url fetch originalText isVideo =
     (if \<not> url_set url then Str (truncated originalText)
      else
        (case fetch (condensingRequest originalText isVideo) of
           Inl e \<Rightarrow> Str (truncated originalText)
         | Inr response \<Rightarrow>
             (case json response of
                Inl e \<Rightarrow> Str (truncated originalText)
              | Inr responseData \<Rightarrow>
                  if \<not> ok response \<or> \<not> truthy (altText responseData)
                  then Str (truncated originalText)
                  else altText responseData)))"

text \<open>The message returned for a response that is not \<^verbatim>\<open>ok\<close>; the last case is
  \<^verbatim>\<open>responseData?.error || proxyResponse.statusText || `Proxy request failed ...`\<close>.\<close>

definition errorMsg :: "response \<Rightarrow> js_value" where
  "errorMsg proxyResponse =
     (if status proxyResponse = 403 then
        Str ''Access denied by the server. This is likely a CORS (Cross-Origin Resource Sharing) issue. The server needs to allow this extension to connect to it.''
      else if status proxyResponse = 413 then
        Str ''Server error: File exceeds size limits (max 20MB). Please use a smaller file.''
      else if status proxyResponse = 0 \<or> status proxyResponse = 500 \<or> status proxyResponse = 502 then
        Str ''The server experienced an error processing your request. This could be due to the file size or server load.''
      else
        (case json proxyResponse of
           Inl jsonError \<Rightarrow>
             Str (''Request failed ('' @ show_nat (status proxyResponse) @ ''): ''
                  @ statusText proxyResponse)
         | Inr responseData \<Rightarrow>
             if truthy (error responseData) then error responseData
             else if statusText proxyResponse \<noteq> [] then Str (statusText proxyResponse)
             else Str (''Proxy request failed with status '' @ show_nat (status proxyResponse))))"

definition proxy_fileName :: "string \<Rightarrow> bool \<Rightarrow> string" where
  "proxy_fileName mimeType isVideo =
     ''file.'' @
       (case split_slash_1 mimeType of
          None \<Rightarrow> (if isVideo then ''mp4'' else ''jpg'')
        | Some ext \<Rightarrow> if ext \<noteq> [] then ext else (if isVideo then ''mp4'' else ''jpg''))"

text \<open>
  The \<^verbatim>\<open>catch (e)\<close> around the main request: one retry with the simplified body after a
  \<^verbatim>\<open>TypeError\<close> whose message includes \<^verbatim>\<open>Failed to fetch\<close>, else a message chosen from \<open>e\<close>.
  The retry returns \<^verbatim>\<open>simpleData.altText\<close> when it is a string.
\<close>

definition catch_fetch_error ::
  "fetch \<Rightarrow> string \<Rightarrow> string \<Rightarrow> bool \<Rightarrow> exn \<Rightarrow> port_response" where
  "catch_fetch_error fetch base64Data mimeType isVideo e =
     (if name e = ''TypeError'' \<and> includes_str (message e) ''Failed to fetch'' then
        (case fetch (SimpleRequest base64Data mimeType isVideo (proxy_fileName mimeType isVideo)) of
           Inl altError \<Rightarrow>
             Error (Str (''Network error: Unable to connect to the AI service after multiple attempts. Please check your connection. (Main: ''
                    @ message e @ '', Alt Exception: '' @ message altError @ '')''))
         | Inr simpleResponse \<Rightarrow>
             if \<not> ok simpleResponse then
               Error (Str (''Network error after multiple attempts. Main: '' @ message e @ ''. Alt: ''
                      @ (case body_text simpleResponse of
                           Some errorText \<Rightarrow> errorText
                         | None \<Rightarrow> ''Alternative request failed with status ''
                                     @ show_nat (status simpleResponse))))
             else
               (case json simpleResponse of
                  Inl altError \<Rightarrow>
                    Error (Str (''Network error: Unable to connect to the AI service after multiple attempts. Please check your connection. (Main: ''
                           @ message e @ '', Alt Exception: '' @ message altError @ '')''))
                | Inr simpleData \<Rightarrow>
                    (case altText simpleData of
                       Str t \<Rightarrow> AltText (Str t)
                     | _ \<Rightarrow>
                         Error (Str ''Network error: AI service connection failed (alt response invalid).''))))
      else if name e = ''AbortError'' then
        Error (Str ''Request timed out after several minutes. The media may be too complex to process.'')
      else if message e \<noteq> [] \<and> includes_str (message e) ''Failed to fetch'' then
        Error (Str ''Network error: Unable to connect to the AI service. Please check your connection and try again later.'')
      else if message e \<noteq> []
          \<and> (includes_str (message e) ''413''
             \<or> includes_str (toLowerCase (message e)) ''too large''
             \<or> includes_str (toLowerCase (message e)) ''request entity too large''
             \<or> includes_str (toLowerCase (message e)) ''payload too large''
             \<or> includes_str (toLowerCase (message e)) ''message length exceeded'') then
        Error (Str ''Server error: File exceeds size limits (max 20MB). Please use a smaller file.'')
      else if message e \<noteq> [] \<and> includes_str (message e) ''NetworkError'' then
        Error (Str ''Network error: Connection interrupted. Please try again.'')
      else
        Error (Str (''Error: '' @ (if message e \<noteq> [] then message e else ''Unknown error occurred''))))"

text \<open>The note put before a condensed video description; it ends in two line feeds.\<close>

definition condensedNote :: string where
  "condensedNote =
     ''[Note: This video description was automatically condensed to fit character limits.]''
     @ [CHR 0x0A, CHR 0x0A]"

text \<open>
  The test \<^verbatim>\<open>altText.length + condensedNote.length <= MAX_ALT_TEXT_LENGTH\<close> on the value
  \<^verbatim>\<open>condenseAltText\<close> returned. That value is truthy, so it is not \<^verbatim>\<open>undefined\<close> and the
  read of \<^verbatim>\<open>length\<close> does not throw.
\<close>

fun room_for_note :: "js_value \<Rightarrow> bool" where
  "room_for_note Undefined = False"
| "room_for_note (Str s) = (length s + length condensedNote \<le> MAX_ALT_TEXT_LENGTH)"
| "room_for_note (Other t f c) = f"

text \<open>
  \<^verbatim>\<open>generateAltTextViaProxy\<close>. \<open>src\<close> is the outcome of \<^verbatim>\<open>getBase64Data(source)\<close>: the
  message of the error it throws, or the pair of the base64 data and the mime type. The
  length check is made once, on the \<open>altText\<close> of the main response; what
  \<^verbatim>\<open>condenseAltText\<close> returns is not checked again.
\<close>

definition generateAltTextViaProxy ::
  "string option \<Rightarrow> fetch \<Rightarrow> string + string \<times> string \<Rightarrow> bool \<Rightarrow> port_response" where
  "generateAltTextViaProxy url fetch src isVideo =
     (if \<not> url_set url \<or> url = Some ''YOUR_FUNCTION_URL_HERE'' then
        Error (Str ''Extension configuration error: Proxy URL not set.'')
      else
        (case src of
           Inl errorMessage \<Rightarrow> Error (Str (''Request Error: '' @ errorMessage))
         | Inr (base64Data, mimeType) \<Rightarrow>
             (case fetch (ProxyRequest base64Data mimeType isVideo
                            (proxy_fileName mimeType isVideo) (length base64Data)) of
                Inl e \<Rightarrow> catch_fetch_error fetch base64Data mimeType isVideo e
              | Inr proxyResponse \<Rightarrow>
                  if \<not> ok proxyResponse then Error (errorMsg proxyResponse)
                  else
                    (case json proxyResponse of
                       Inl e \<Rightarrow> catch_fetch_error fetch base64Data mimeType isVideo e
                     | Inr responseData \<Rightarrow>
                         (case altText responseData of
                            Str text0 \<Rightarrow>
                              if length text0 > MAX_ALT_TEXT_LENGTH then
                                (let condensed = condenseAltText url fetch text0 isVideo in
                                 if isVideo \<and> room_for_note condensed
                                 then AltText (Str (condensedNote @ string_of condensed))
                                 else AltText condensed)
                              else AltText (Str text0)
                          | _ \<Rightarrow>
                              Error (Str ''Received invalid response format from proxy service.''))))))"

section \<open>Facts about the memory map\<close>

lemma map_of_map_set: "map_of (map_set m key x) = (map_of m)(key \<mapsto> x)"
  by (induction m key x rule: map_set.induct) auto

lemma map_has_map_set: "map_has (map_set m key value) k = (k = key \<or> map_has m k)"
  by (simp add: map_has_def map_of_map_set)

lemma map_get_map_set:
  "map_get (map_set m key value) k = (if k = key then value else map_get m k)"
  by (simp add: map_get_def map_of_map_set)

lemma map_fst_map_set:
  "map fst (map_set m key x) = (if map_has m key then map fst m else map fst m @ [key])"
  by (induction m key x rule: map_set.induct) (auto simp: map_has_def)

lemma distinct_map_set: "distinct (map fst m) \<Longrightarrow> distinct (map fst (map_set m key x))"
  by (auto simp: map_fst_map_set map_has_def map_of_eq_None_iff)

lemma map_of_write_batch: "map_of (write_batch c batch) = map_of c ++ map_of (rev batch)"
proof (induction c batch rule: write_batch.induct)
  case (1 c)
  show ?case by simp
next
  case (2 c key x batch)
  have "map_of (map_set c key x) ++ map_of (rev batch) = map_of c ++ map_of (rev ((key, x) # batch))"
    by (auto simp: map_of_map_set fun_eq_iff map_add_def split: option.splits)
  with 2 show ?case by simp
qed

lemma map_of_rev_None: "(map_of (rev batch) k = None) = (map_of batch k = None)"
  by (simp add: map_of_eq_None_iff)

lemma map_has_write_batch:
  "map_has (write_batch c batch) k = (map_has c k \<or> map_of batch k \<noteq> None)"
  by (auto simp: map_has_def map_of_write_batch map_of_rev_None)

lemma map_get_write_batch:
  "map_get (write_batch c batch) k =
     (case map_of (rev batch) k of None \<Rightarrow> map_get c k | Some x \<Rightarrow> x)"
  by (simp add: map_get_def map_of_write_batch map_add_def split: option.splits)

lemma read_from_cache_eq:
  "read_from_cache c keys acc =
     (if list_all (map_has c) keys then Some (fold (\<lambda>key m. map_set m key (map_get c key)) keys acc) else None)"
  by (induction keys arbitrary: acc) auto

lemma map_of_fold_map_set:
  "map_of (fold (\<lambda>key m. map_set m key (f key)) keys acc) =
     (\<lambda>k. if k \<in> set keys then Some (f k) else map_of acc k)"
  by (induction keys arbitrary: acc) (auto simp: map_of_map_set fun_eq_iff)

lemma distinct_fold_map_set:
  "distinct (map fst acc) \<Longrightarrow> distinct (map fst (fold (\<lambda>key m. map_set m key (f key)) keys acc))"
  by (induction keys arbitrary: acc) (auto simp: distinct_map_set)

text \<open>
  Values collected key by key: when the accumulator already holds \<open>f k\<close> under every
  key \<open>k\<close>, setting further keys to their \<open>f\<close> value adds exactly the tests of those keys.
\<close>

lemma consistent_map_set:
  "list_all (\<lambda>(k', y). y = f k') m \<Longrightarrow> list_all (\<lambda>(k', y). y = f k') (map_set m k (f k))"
  by (induction m) (auto split: if_splits)

lemma values_map_set_iff:
  "list_all (\<lambda>(k', y). y = f k') m \<Longrightarrow>
   list_all P (map snd (map_set m k (f k))) = (list_all P (map snd m) \<and> P (f k))"
  by (induction m) (auto split: if_splits)

lemma values_fold:
  "list_all (\<lambda>(k', y). y = f k') acc \<Longrightarrow>
   list_all P (map snd (fold (\<lambda>key m. map_set m key (f key)) keys acc)) =
     (list_all P (map snd acc) \<and> list_all (\<lambda>key. P (f key)) keys)"
proof (induction keys arbitrary: acc)
  case Nil
  show ?case by simp
next
  case (Cons key keys)
  have "list_all P (map snd (map_set acc key (f key))) = (list_all P (map snd acc) \<and> P (f key))"
    and "list_all (\<lambda>(k', y). y = f k') (map_set acc key (f key))"
    using Cons.prems by (simp_all add: values_map_set_iff consistent_map_set)
  with Cons.IH [of "map_set acc key (f key)"] show ?case by simp
qed

section \<open>Facts about the cache operations\<close>

lemma getBatch_sync_eq:
  "getBatch_sync s keys =
     (if list_all (map_has (cache s)) keys
      then (Some (fold (\<lambda>key m. map_set m key (map_get (cache s) key)) keys []), s)
      else (None, s\<lparr>idb_calls := idb_calls s @ [IdbGetBatch keys]\<rparr>))"
  by (simp add: getBatch_sync_def read_from_cache_eq)

lemma get_resident:
  "map_has (cache s) k \<Longrightarrow> get r s k = (Fulfilled (map_get (cache s) k), s)"
  by (simp add: get_def get_sync_def)

lemma getBatch_cold:
  "\<not> list_all (map_has (cache s)) keys \<Longrightarrow>
   getBatch r s keys =
     (case r of
        Fulfilled batch \<Rightarrow>
          (Fulfilled batch,
           s\<lparr>idb_calls := idb_calls s @ [IdbGetBatch keys],
             cache := write_batch (cache s) batch\<rparr>)
      | Rejected e \<Rightarrow> (Rejected e, s\<lparr>idb_calls := idb_calls s @ [IdbGetBatch keys]\<rparr>))"
  by (simp add: getBatch_def getBatch_sync_eq getBatch_then_def split: promise.splits)

lemma getBatch_resident:
  "list_all (map_has (cache s)) keys \<Longrightarrow>
   getBatch r s keys =
     (Fulfilled (fold (\<lambda>key m. map_set m key (map_get (cache s) key)) keys []), s)"
  by (simp add: getBatch_def getBatch_sync_eq)

lemma set_kv_has: "map_has (cache (set_kv s k v)) k"
  by (simp add: set_kv_def map_has_map_set)

lemma set_kv_get: "map_get (cache (set_kv s k v)) k = Some v"
  by (simp add: set_kv_def map_get_map_set)

text \<open>
  Memory never loses a key, and an operation that neither sets \<open>k\<close> nor writes a store
  pair for \<open>k\<close> leaves the value of a resident \<open>k\<close> alone.
\<close>

lemma map_has_exec: "map_has (cache s) k \<Longrightarrow> map_has (cache (exec op s)) k"
proof (cases op)
  case (Set key v)
  assume "map_has (cache s) k"
  then show ?thesis by (simp add: Set set_kv_def map_has_map_set)
next
  case (Get key r)
  assume "map_has (cache s) k"
  then show ?thesis
    by (cases r) (simp_all add: Get get_def get_sync_def get_then_def map_has_map_set)
next
  case (GetBatch keys r)
  assume "map_has (cache s) k"
  then show ?thesis
    by (cases r)
      (simp_all add: GetBatch getBatch_def getBatch_sync_eq getBatch_then_def map_has_write_batch)
next
  case (GetCall key)
  assume "map_has (cache s) k"
  then show ?thesis by (simp add: GetCall get_sync_def)
next
  case (GetSettled key r)
  assume "map_has (cache s) k"
  then show ?thesis
    by (cases r) (simp_all add: GetSettled get_then_def map_has_map_set)
next
  case (GetBatchCall keys)
  assume "map_has (cache s) k"
  then show ?thesis by (simp add: GetBatchCall getBatch_sync_eq)
next
  case (GetBatchSettled r)
  assume "map_has (cache s) k"
  then show ?thesis
    by (cases r) (simp_all add: GetBatchSettled getBatch_then_def map_has_write_batch)
qed

lemma map_has_run: "map_has (cache s) k \<Longrightarrow> map_has (cache (run ops s)) k"
  unfolding run_def by (induction ops arbitrary: s) (simp_all add: map_has_exec)

lemma map_get_exec:
  assumes "map_has (cache s) k" and "\<not> overwrites k op"
  shows "map_get (cache (exec op s)) k = map_get (cache s) k"
proof (cases op)
  case (Set key v)
  with assms show ?thesis by (simp add: set_kv_def map_get_map_set)
next
  case (Get key r)
  with assms show ?thesis
    by (cases r) (auto simp: get_def get_sync_def get_then_def map_get_map_set)
next
  case (GetBatch keys r)
  show ?thesis
  proof (cases r)
    case (Fulfilled batch)
    with assms GetBatch have "map_of batch k = None" by simp
    then have "map_of (rev batch) k = None" by (simp add: map_of_rev_None)
    then show ?thesis
      by (simp add: GetBatch Fulfilled getBatch_def getBatch_sync_eq getBatch_then_def
          map_get_write_batch)
  next
    case (Rejected e)
    then show ?thesis
      by (simp add: GetBatch getBatch_def getBatch_sync_eq getBatch_then_def)
  qed
next
  case (GetCall key)
  then show ?thesis by (simp add: get_sync_def)
next
  case (GetSettled key r)
  with assms show ?thesis
    by (cases r) (auto simp: get_then_def map_get_map_set)
next
  case (GetBatchCall keys)
  then show ?thesis by (simp add: getBatch_sync_eq)
next
  case (GetBatchSettled r)
  show ?thesis
  proof (cases r)
    case (Fulfilled batch)
    with assms GetBatchSettled have "map_of batch k = None" by simp
    then have "map_of (rev batch) k = None" by (simp add: map_of_rev_None)
    then show ?thesis
      by (simp add: GetBatchSettled Fulfilled getBatch_then_def map_get_write_batch)
  next
    case (Rejected e)
    then show ?thesis
      by (simp add: GetBatchSettled getBatch_then_def)
  qed
qed

lemma map_get_run:
  "map_has (cache s) k \<Longrightarrow> \<not> list_ex (overwrites k) ops
     \<Longrightarrow> map_get (cache (run ops s)) k = map_get (cache s) k"
  unfolding run_def
  by (induction ops arbitrary: s) (simp_all add: map_has_exec map_get_exec)

section \<open>Facts about the tracker\<close>

lemma cache_gets_sync: "cache (snd (gets_sync s keys)) = cache s"
  by (induction keys arbitrary: s) (simp_all add: get_sync_def case_prod_unfold)

lemma useIsPostSeen_eq:
  "useIsPostSeen r s p isSeen =
     (if map_has (cache s) (seen_key p)
      then (None, map_get (cache s) (seen_key p) \<noteq> None, s)
      else (case r of
              Fulfilled x \<Rightarrow>
                (None, x \<noteq> None,
                 s\<lparr>idb_calls := idb_calls s @ [IdbGet (seen_key p)],
                   cache := map_set (cache s) (seen_key p) x\<rparr>)
            | Rejected e \<Rightarrow>
                (Some e, isSeen, s\<lparr>idb_calls := idb_calls s @ [IdbGet (seen_key p)]\<rparr>)))"
  by (simp add: useIsPostSeen_def get_def get_sync_def get_then_def split: promise.splits)

lemma useIsSliceSeen_cold:
  assumes "items \<noteq> []" and "\<not> list_all (map_has (cache s)) (map seen_key items)"
  shows "fst (useIsSliceSeen rg rb s items isSeen) =
           (case rb of Fulfilled batch \<Rightarrow> None | Rejected e \<Rightarrow> Some e)"
    and "fst (snd (useIsSliceSeen rg rb s items isSeen)) =
           (case rb of
              Fulfilled batch \<Rightarrow> list_all (\<lambda>seenPost. seenPost \<noteq> None) (map_values batch)
            | Rejected e \<Rightarrow> isSeen)"
proof -
  obtain pending s1 where g: "gets_sync s (map seen_key items) = (pending, s1)"
    by (cases "gets_sync s (map seen_key items)")
  have c: "cache s1 = cache s"
    using cache_gets_sync [of s "map seen_key items"] by (simp add: g)
  have b: "getBatch_sync s1 (map seen_key items) =
      (None, s1\<lparr>idb_calls := idb_calls s1 @ [IdbGetBatch (map seen_key items)]\<rparr>)"
    using assms(2) by (simp add: getBatch_sync_eq c)
  show "fst (useIsSliceSeen rg rb s items isSeen) =
           (case rb of Fulfilled batch \<Rightarrow> None | Rejected e \<Rightarrow> Some e)"
    using assms(1) by (simp add: useIsSliceSeen_def Let_def g b getBatch_then_def split: promise.splits)
  show "fst (snd (useIsSliceSeen rg rb s items isSeen)) =
           (case rb of
              Fulfilled batch \<Rightarrow> list_all (\<lambda>seenPost. seenPost \<noteq> None) (map_values batch)
            | Rejected e \<Rightarrow> isSeen)"
    using assms(1) by (simp add: useIsSliceSeen_def Let_def g b getBatch_then_def split: promise.splits)
qed

lemma useIsSliceSeen_resident:
  assumes "items \<noteq> []" and "list_all (map_has (cache s)) (map seen_key items)"
  shows "fst (snd (useIsSliceSeen rg rb s items isSeen)) =
           list_all (\<lambda>p. map_get (cache s) (seen_key p) \<noteq> None) items"
proof -
  obtain pending s1 where g: "gets_sync s (map seen_key items) = (pending, s1)"
    by (cases "gets_sync s (map seen_key items)")
  have c: "cache s1 = cache s"
    using cache_gets_sync [of s "map seen_key items"] by (simp add: g)
  have b: "getBatch_sync s1 (map seen_key items) =
      (Some (fold (\<lambda>key m. map_set m key (map_get (cache s) key)) (map seen_key items) []), s1)"
    using assms(2) by (simp add: getBatch_sync_eq c)
  have "list_all (\<lambda>seenPost. seenPost \<noteq> None)
          (map snd (fold (\<lambda>key m. map_set m key (map_get (cache s) key)) (map seen_key items) [])) =
        list_all (\<lambda>key. map_get (cache s) key \<noteq> None) (map seen_key items)"
    by (simp add: values_fold)
  then show ?thesis
    using assms(1)
    by (simp add: useIsSliceSeen_def Let_def g b map_values_def list_all_iff)
qed

lemma split_at_first:
  assumes "x \<notin> set xs" and "x \<notin> set xs'"
  shows "(xs @ x # ys = xs' @ x # ys') = (xs = xs' \<and> ys = ys')"
proof
  assume eq: "xs @ x # ys = xs' @ x # ys'"
  have "takeWhile (\<lambda>c. c \<noteq> x) (xs @ x # ys) = xs"
    using assms(1) by (auto simp: takeWhile_tail)
  moreover have "takeWhile (\<lambda>c. c \<noteq> x) (xs' @ x # ys') = xs'"
    using assms(2) by (auto simp: takeWhile_tail)
  ultimately have "xs = xs'" using eq by simp
  with eq show "xs = xs' \<and> ys = ys'" by simp
next
  assume "xs = xs' \<and> ys = ys'"
  then show "xs @ x # ys = xs' @ x # ys'" by simp
qed

lemma post_ref_eq: "(p = q) = (uri p = uri q \<and> cid p = cid q)" for p q :: post_ref
  by (cases p, cases q) simp

section \<open>Facts about the alt-text flow\<close>

lemma length_truncated:
  "length t > MAX_ALT_TEXT_LENGTH \<Longrightarrow> length (truncated t) = MAX_ALT_TEXT_LENGTH"
  by (simp add: truncated_def MAX_ALT_TEXT_LENGTH_def)

lemma condenseAltText_truthy: "truthy (condenseAltText url fetch t isVideo)"
  by (simp add: condenseAltText_def truncated_def split: sum.splits)

text \<open>An \<^verbatim>\<open>ok\<close> answer with a truthy \<open>altText\<close> is returned as it is; there is no other way
  for the result to differ from the truncation.\<close>

lemma condenseAltText_answer:
  "url_set url \<Longrightarrow> fetch (condensingRequest t isVideo) = Inr response \<Longrightarrow> ok response
     \<Longrightarrow> json response = Inr responseData \<Longrightarrow> truthy (altText responseData)
     \<Longrightarrow> condenseAltText url fetch t isVideo = altText responseData"
  by (simp add: condenseAltText_def)

lemma condenseAltText_fallback:
  "condenseAltText url fetch t isVideo \<noteq> Str (truncated t) \<Longrightarrow>
   \<exists>response responseData.
      url_set url \<and> fetch (condensingRequest t isVideo) = Inr response \<and> ok response
      \<and> json response = Inr responseData \<and> truthy (altText responseData)
      \<and> condenseAltText url fetch t isVideo = altText responseData"
  by (auto simp: condenseAltText_def split: sum.splits if_splits)

section \<open>Write visibility (C1)\<close>

text \<open>
  C1. After \<open>set(k, v)\<close>, \<open>get(k)\<close> is answered by the synchronous part from memory with
  \<open>v\<close>: the state, and with it the list of store calls, is the one \<open>set\<close> left, whose only
  new entry is the write. The settlement \<open>r\<close> of a store read is arbitrary, so nothing
  depends on whether the store has committed the write.
\<close>

theorem set_then_get:
  "get r (set_kv s k v) k = (Fulfilled (Some v), set_kv s k v)
   \<and> get_sync (set_kv s k v) k = (Some (Some v), set_kv s k v)
   \<and> idb_calls (snd (get r (set_kv s k v) k)) = idb_calls s @ [IdbSet k v]"
  by (simp add: get_def get_sync_def set_kv_def map_has_map_set map_get_map_set)

section \<open>Program order in memory (C2)\<close>

text \<open>
  C2 as stated fails. After \<open>set(1, 7)\<close> on a fresh cache, \<open>getBatch([1, 2])\<close> finds key 2
  missing and asks the store for both keys; the store, which has not committed the write,
  answers \<^verbatim>\<open>undefined\<close> for both, the second loop of \<open>getBatch\<close> writes both pairs into
  memory, and the following \<open>get(1)\<close> yields \<^verbatim>\<open>undefined\<close>, not 7.
\<close>

theorem program_order_counterexample:
  "fst (get (Fulfilled None :: (unit, nat option) promise)
          (snd (getBatch (Fulfilled [(1, None), (2, None)] :: (unit, (nat, nat) js_map) promise)
                  (set_kv new_cache 1 7) [1, 2])) 1) = Fulfilled None
   \<and> fst (get (Fulfilled None :: (unit, nat option) promise)
          (snd (getBatch (Fulfilled [(1, None), (2, None)] :: (unit, (nat, nat) js_map) promise)
                  (set_kv new_cache 1 7) [1, 2])) 1) \<noteq> Fulfilled (Some 7)"
  by (simp add: get_def get_sync_def get_then_def getBatch_def getBatch_sync_def
      getBatch_then_def set_kv_def new_cache_def map_has_def map_get_def)

text \<open>
  C2, amended. After \<open>set(k, v)\<close>, a later \<open>get(k)\<close> returns \<open>v\<close> from memory, with no
  store call, after every run of steps (awaited operations, calls that leave a read
  pending, settlements of pending reads) in which \<open>k\<close> is not set again, no pending read
  of \<open>k\<close> is fulfilled, and no multi-get is fulfilled with a response that has a pair for
  \<open>k\<close>. The other steps do replace \<open>v\<close>. A \<open>getBatch\<close> that goes to the store writes the
  response into memory: the following \<open>get(k)\<close> yields the value the response gives \<open>k\<close>
  if it has a pair for \<open>k\<close> (the last one, should it have several) and \<open>v\<close> if it has
  none or if the store's read is rejected. A read of \<open>k\<close> that was pending when \<open>set\<close> ran
  and is fulfilled with \<open>x\<close> afterwards writes \<open>x\<close> over \<open>v\<close>: the following \<open>get(k)\<close>
  yields \<open>x\<close>; if that read is rejected, \<open>v\<close> stays.
\<close>

theorem program_order:
  "(\<not> list_ex (overwrites k) ops
      \<longrightarrow> get r (run ops (set_kv s k v)) k = (Fulfilled (Some v), run ops (set_kv s k v)))
   \<and> (\<not> list_all (map_has (cache (set_kv s k v))) keys
      \<longrightarrow> fst (get r (snd (getBatch (Fulfilled batch) (set_kv s k v) keys)) k) =
          Fulfilled (case map_of (rev batch) k of None \<Rightarrow> Some v | Some x \<Rightarrow> x))
   \<and> (\<not> list_all (map_has (cache (set_kv s k v))) keys
      \<longrightarrow> fst (get r (snd (getBatch (Rejected e) (set_kv s k v) keys)) k) = Fulfilled (Some v))
   \<and> fst (get r (snd (get_then (Fulfilled x) (set_kv s k v) k)) k) = Fulfilled x
   \<and> fst (get r (snd (get_then (Rejected e) (set_kv s k v) k)) k) = Fulfilled (Some v)"
proof (intro conjI impI)
  assume "\<not> list_ex (overwrites k) ops"
  then have "map_get (cache (run ops (set_kv s k v))) k = Some v"
    using map_get_run [OF set_kv_has] set_kv_get by metis
  moreover have "map_has (cache (run ops (set_kv s k v))) k"
    by (rule map_has_run [OF set_kv_has])
  ultimately show "get r (run ops (set_kv s k v)) k = (Fulfilled (Some v), run ops (set_kv s k v))"
    by (simp add: get_resident)
next
  assume cold: "\<not> list_all (map_has (cache (set_kv s k v))) keys"
  show "fst (get r (snd (getBatch (Fulfilled batch) (set_kv s k v) keys)) k) =
        Fulfilled (case map_of (rev batch) k of None \<Rightarrow> Some v | Some x \<Rightarrow> x)"
    by (simp add: getBatch_cold [OF cold] get_resident map_has_write_batch set_kv_has
        map_get_write_batch set_kv_get split: option.splits)
next
  assume cold: "\<not> list_all (map_has (cache (set_kv s k v))) keys"
  show "fst (get r (snd (getBatch (Rejected e) (set_kv s k v) keys)) k) = Fulfilled (Some v)"
    by (simp add: getBatch_cold [OF cold] get_resident set_kv_has set_kv_get)
next
  show "fst (get r (snd (get_then (Fulfilled x) (set_kv s k v) k)) k) = Fulfilled x"
    by (simp add: get_then_def get_resident map_has_map_set map_get_map_set)
next
  show "fst (get r (snd (get_then (Rejected e) (set_kv s k v) k)) k) = Fulfilled (Some v)"
    by (simp add: get_then_def get_resident set_kv_has set_kv_get)
qed

text \<open>
  The theorem at a run of seven steps after \<open>set(1, 7)\<close>, among them a read of key 1 whose
  rejection arrives after the \<open>set\<close>; at a batch whose store response gives key 1 the
  value 9; and at a read of key 1 that was pending when \<open>set\<close> ran and is fulfilled with
  \<^verbatim>\<open>undefined\<close> afterwards.
\<close>

theorem program_order_witness:
  "\<not> list_ex (overwrites (1::nat))
       [GetCall 2, Get 2 (Fulfilled None), Set 2 (5::nat), GetSettled 2 (Fulfilled (Some 6)),
        GetSettled 1 (Rejected ()), GetBatch [1, 2] (Rejected ()),
        GetBatch [2, 3] (Fulfilled [(2, Some 5), (3, None)])]
   \<and> get (Rejected ())
        (run [GetCall 2, Get 2 (Fulfilled None), Set 2 5, GetSettled 2 (Fulfilled (Some 6)),
              GetSettled 1 (Rejected ()), GetBatch [1, 2] (Rejected ()),
              GetBatch [2, 3] (Fulfilled [(2, Some 5), (3, None)])]
           (set_kv (snd (get_sync new_cache (1::nat))) 1 (7::nat))) 1 =
       (Fulfilled (Some 7),
        run [GetCall 2, Get 2 (Fulfilled None), Set 2 5, GetSettled 2 (Fulfilled (Some 6)),
              GetSettled 1 (Rejected ()), GetBatch [1, 2] (Rejected ()),
              GetBatch [2, 3] (Fulfilled [(2, Some 5), (3, None)])]
           (set_kv (snd (get_sync new_cache 1)) 1 7))
   \<and> \<not> list_all (map_has (cache (set_kv (snd (get_sync new_cache (1::nat))) 1 (7::nat)))) [1, 2]
   \<and> fst (get (Rejected ())
        (snd (getBatch (Fulfilled [(1, Some 9), (2, None)] :: (unit, (nat, nat) js_map) promise)
           (set_kv (snd (get_sync new_cache 1)) 1 7) [1, 2])) 1) = Fulfilled (Some 9)
   \<and> fst (get (Rejected ())
        (snd (getBatch (Rejected () :: (unit, (nat, nat) js_map) promise)
           (set_kv (snd (get_sync new_cache 1)) 1 7) [1, 2])) 1) = Fulfilled (Some 7)
   \<and> fst (get (Rejected ())
        (snd (get_then (Fulfilled None) (set_kv (snd (get_sync new_cache (1::nat))) 1 (7::nat)) 1))
        1) = Fulfilled None
   \<and> fst (get (Rejected ())
        (snd (get_then (Rejected ()) (set_kv (snd (get_sync new_cache (1::nat))) 1 (7::nat)) 1))
        1) = Fulfilled (Some 7)"
proof -
  have h1: "\<not> list_ex (overwrites (1::nat))
       [GetCall 2, Get 2 (Fulfilled None), Set 2 (5::nat), GetSettled 2 (Fulfilled (Some 6)),
        GetSettled 1 (Rejected ()), GetBatch [1, 2] (Rejected ()),
        GetBatch [2, 3] (Fulfilled [(2, Some 5), (3, None)])]"
    by simp
  have h2: "\<not> list_all (map_has (cache (set_kv (snd (get_sync new_cache (1::nat))) 1 (7::nat)))) [1, 2]"
    by (simp add: set_kv_def get_sync_def new_cache_def map_has_def)
  show ?thesis
    using h1 h2
      program_order [of "1::nat" "[GetCall 2, Get 2 (Fulfilled None), Set 2 (5::nat),
        GetSettled 2 (Fulfilled (Some 6)), GetSettled 1 (Rejected ()),
        GetBatch [1, 2] (Rejected ()), GetBatch [2, 3] (Fulfilled [(2, Some 5), (3, None)])]"
        "Rejected ()" "snd (get_sync new_cache (1::nat))" 7 "[1, 2]" "[(1, Some 9), (2, None)]"
        "()" None]
    by simp
qed

section \<open>The all-or-nothing batch (C3)\<close>

text \<open>
  C3. When memory holds every key of the list, \<open>getBatch\<close> returns the mapping of each
  listed key to its memory value and leaves the state, hence the list of store calls,
  unchanged; the empty list gives the empty mapping. When some key is missing, exactly one
  call is added to the store calls, the multi-get of the whole list, and on fulfilment the
  store's mapping is returned from a state whose memory is the old memory overridden by
  the pairs of the response, so that each pair of a response with distinct keys is in
  memory.
\<close>

theorem getBatch_all_or_nothing:
  "(list_all (map_has (cache s)) keys \<longrightarrow>
      (\<exists>result. getBatch r s keys = (Fulfilled result, s)
         \<and> map_of result = (\<lambda>k. if k \<in> set keys then Some (map_get (cache s) k) else None)
         \<and> distinct (map fst result)))
   \<and> getBatch r s [] = (Fulfilled [], s)
   \<and> (\<not> list_all (map_has (cache s)) keys \<longrightarrow>
        idb_calls (snd (getBatch r s keys)) = idb_calls s @ [IdbGetBatch keys]
        \<and> getBatch (Fulfilled batch) s keys =
            (Fulfilled batch,
             s\<lparr>idb_calls := idb_calls s @ [IdbGetBatch keys],
               cache := write_batch (cache s) batch\<rparr>)
        \<and> map_of (write_batch (cache s) batch) = map_of (cache s) ++ map_of (rev batch)
        \<and> (distinct (map fst batch) \<longrightarrow>
             list_all (\<lambda>(k, x). map_has (write_batch (cache s) batch) k
                        \<and> map_get (write_batch (cache s) batch) k = x) batch))"
proof (intro conjI impI)
  assume res: "list_all (map_has (cache s)) keys"
  show "\<exists>result. getBatch r s keys = (Fulfilled result, s)
         \<and> map_of result = (\<lambda>k. if k \<in> set keys then Some (map_get (cache s) k) else None)
         \<and> distinct (map fst result)"
    by (simp add: getBatch_resident [OF res] map_of_fold_map_set distinct_fold_map_set
        cong: if_cong)
next
  show "getBatch r s [] = (Fulfilled [], s)"
    by (simp add: getBatch_def getBatch_sync_def)
next
  assume cold: "\<not> list_all (map_has (cache s)) keys"
  show "idb_calls (snd (getBatch r s keys)) = idb_calls s @ [IdbGetBatch keys]"
    by (simp add: getBatch_cold [OF cold] split: promise.splits)
  show "getBatch (Fulfilled batch) s keys =
      (Fulfilled batch,
       s\<lparr>idb_calls := idb_calls s @ [IdbGetBatch keys], cache := write_batch (cache s) batch\<rparr>)"
    by (simp add: getBatch_cold [OF cold])
  show "map_of (write_batch (cache s) batch) = map_of (cache s) ++ map_of (rev batch)"
    by (rule map_of_write_batch)
next
  assume "distinct (map fst batch)"
  then have "\<And>k x. (k, x) \<in> set batch \<Longrightarrow> map_of (rev batch) k = Some x"
    by (simp add: distinct_rev rev_map [symmetric])
  then show "list_all (\<lambda>(k, x). map_has (write_batch (cache s) batch) k
                        \<and> map_get (write_batch (cache s) batch) k = x) batch"
    by (auto simp: list_all_iff map_has_def map_get_def map_of_write_batch)
qed

text \<open>
  The theorem at a cache that holds keys 1 and 2, asked for \<open>[2, 1, 2]\<close>, and at a cache
  that holds key 1 only, asked for \<open>[1, 2]\<close>.
\<close>

theorem getBatch_all_or_nothing_witness:
  "list_all (map_has (cache (set_kv (set_kv new_cache (1::nat) (7::nat)) 2 8))) [2, 1, 2]
   \<and> getBatch (Rejected ()) (set_kv (set_kv new_cache (1::nat) (7::nat)) 2 8) [2, 1, 2] =
       (Fulfilled [(2, Some 8), (1, Some 7)], set_kv (set_kv new_cache 1 7) 2 8)
   \<and> \<not> list_all (map_has (cache (set_kv new_cache (1::nat) (7::nat)))) [1, 2]
   \<and> getBatch (Fulfilled [(1, None), (2, Some 8)] :: (unit, (nat, nat) js_map) promise)
        (set_kv new_cache 1 7) [1, 2] =
       (Fulfilled [(1, None), (2, Some 8)],
        \<lparr>cache = [(1, None), (2, Some 8)], idb_calls = [IdbSet 1 7, IdbGetBatch [1, 2]]\<rparr>)
   \<and> distinct (map fst [(1::nat, None :: nat option), (2, Some 8)])"
proof -
  have h1: "list_all (map_has (cache (set_kv (set_kv new_cache (1::nat) (7::nat)) 2 8))) [2, 1, 2]"
    by (simp add: set_kv_def new_cache_def map_has_def)
  have h2: "\<not> list_all (map_has (cache (set_kv new_cache (1::nat) (7::nat)))) [1, 2]"
    by (simp add: set_kv_def new_cache_def map_has_def)
  have h3: "distinct (map fst [(1::nat, None :: nat option), (2, Some 8)])"
    by simp
  show ?thesis
    using h1 h2 h3
      getBatch_all_or_nothing [of "set_kv (set_kv new_cache (1::nat) (7::nat)) 2 8" "[2, 1, 2]"
        "Rejected ()" "[]"]
      getBatch_all_or_nothing [of "set_kv new_cache (1::nat) (7::nat)" "[1, 2]"
        "Fulfilled [(1, None), (2, Some 8)] :: (unit, (nat, nat) js_map) promise"
        "[(1, None), (2, Some 8)]"]
    by (simp add: set_kv_def new_cache_def map_has_def map_get_def
        getBatch_def getBatch_sync_def getBatch_then_def)
qed

section \<open>Cold reads populate memory (C4)\<close>

text \<open>
  C4 as stated fails. Memory is written by the callback of the store's read, not by the
  call. On a fresh cache two calls of \<open>get(4)\<close>, the second made while the read of the
  first is pending, both reach the store; and after a read of key 4 that the store
  rejects, the next \<open>get(4)\<close> reaches the store again. In each case a subsequent \<open>get\<close> of
  the key issues a second store read.
\<close>

theorem cold_get_counterexample:
  "idb_calls (run [GetCall 4, GetCall 4 :: (unit, nat, nat) cache_op] new_cache) =
     [IdbGet 4, IdbGet 4]
   \<and> idb_calls (run [Get 4 (Rejected ()), Get 4 (Fulfilled None) :: (unit, nat, nat) cache_op]
        new_cache) = [IdbGet 4, IdbGet 4]"
  by (simp add: run_def get_def get_sync_def get_then_def new_cache_def map_has_def)

text \<open>
  C4, amended. For a key \<open>k\<close> that memory does not hold and a store read fulfilled with
  \<open>x\<close> (a value or \<^verbatim>\<open>undefined\<close>), \<open>get(k)\<close> returns \<open>x\<close>, adds the one call \<open>IdbGet k\<close> to
  the store calls and leaves \<open>x\<close> in memory under \<open>k\<close>. Every \<open>get(k)\<close> made after that
  read has settled is fulfilled from memory and adds no store call, whatever run of steps
  (awaited operations, calls that leave a read pending, settlements of pending reads) lies
  in between. A \<open>get(k)\<close> made while the first read is pending, or after a read that the
  store rejected, finds memory without \<open>k\<close> and adds a second \<open>IdbGet k\<close>.
\<close>

theorem cold_get_once:
  assumes "\<not> map_has (cache s) k" and "get (Fulfilled x) s k = (p, s1)"
  shows "p = Fulfilled x
     \<and> idb_calls s1 = idb_calls s @ [IdbGet k]
     \<and> map_has (cache s1) k \<and> map_get (cache s1) k = x
     \<and> get r s1 k = (Fulfilled x, s1)
     \<and> snd (get r (run ops s1) k) = run ops s1
     \<and> (\<exists>y. fst (get r (run ops s1) k) = Fulfilled y)
     \<and> get_sync (snd (get_sync s k)) k =
         (None, s\<lparr>idb_calls := idb_calls s @ [IdbGet k, IdbGet k]\<rparr>)
     \<and> get_sync (snd (get (Rejected e) s k)) k =
         (None, s\<lparr>idb_calls := idb_calls s @ [IdbGet k, IdbGet k]\<rparr>)"
proof -
  have g: "p = Fulfilled x"
    "s1 = s\<lparr>idb_calls := idb_calls s @ [IdbGet k], cache := map_set (cache s) k x\<rparr>"
    using assms by (simp_all add: get_def get_sync_def get_then_def)
  have has: "map_has (cache s1) k"
    by (simp add: g map_has_map_set)
  have val: "map_get (cache s1) k = x"
    by (simp add: g map_get_map_set)
  have later: "map_has (cache (run ops s1)) k"
    by (rule map_has_run [OF has])
  have calls: "idb_calls s1 = idb_calls s @ [IdbGet k]"
    by (simp add: g)
  have pending: "get_sync (snd (get_sync s k)) k =
         (None, s\<lparr>idb_calls := idb_calls s @ [IdbGet k, IdbGet k]\<rparr>)"
    using assms(1) by (simp add: get_sync_def)
  have rejected: "get_sync (snd (get (Rejected e) s k)) k =
         (None, s\<lparr>idb_calls := idb_calls s @ [IdbGet k, IdbGet k]\<rparr>)"
    using assms(1) by (simp add: get_def get_sync_def get_then_def)
  show ?thesis
    using g(1) calls has val pending rejected
      get_resident [OF has, of r] get_resident [OF later, of r] by simp
qed

text \<open>
  The theorem at a fresh cache and a store that resolves key 4 to \<^verbatim>\<open>undefined\<close>, with a
  run in between that settles a read of key 4 left over from before as rejected.
\<close>

theorem cold_get_once_witness:
  "\<not> map_has (cache (new_cache :: (nat, nat) idb_cache)) 4
   \<and> get (Fulfilled None :: (unit, nat option) promise) new_cache (4::nat) =
       (Fulfilled None, \<lparr>cache = [(4, None)], idb_calls = [IdbGet 4]\<rparr>)
   \<and> idb_calls \<lparr>cache = [(4::nat, None :: nat option)], idb_calls = [IdbGet 4]\<rparr> =
       idb_calls new_cache @ [IdbGet 4]
   \<and> get (Rejected ()) \<lparr>cache = [(4::nat, None :: nat option)], idb_calls = [IdbGet 4]\<rparr> 4 =
       (Fulfilled None, \<lparr>cache = [(4, None)], idb_calls = [IdbGet 4]\<rparr>)
   \<and> snd (get (Rejected ())
        (run [GetCall 5, GetSettled 4 (Rejected ()), GetBatch [4, 5] (Rejected ()),
              GetSettled 5 (Fulfilled None)]
           \<lparr>cache = [(4::nat, None :: nat option)], idb_calls = [IdbGet 4]\<rparr>) 4) =
       run [GetCall 5, GetSettled 4 (Rejected ()), GetBatch [4, 5] (Rejected ()),
              GetSettled 5 (Fulfilled None)]
           \<lparr>cache = [(4, None)], idb_calls = [IdbGet 4]\<rparr>
   \<and> get_sync (snd (get_sync (new_cache :: (nat, nat) idb_cache) 4)) 4 =
       (None, \<lparr>cache = [], idb_calls = [IdbGet 4, IdbGet 4]\<rparr>)
   \<and> get_sync (snd (get (Rejected ()) (new_cache :: (nat, nat) idb_cache) 4)) 4 =
       (None, \<lparr>cache = [], idb_calls = [IdbGet 4, IdbGet 4]\<rparr>)"
proof -
  have h1: "\<not> map_has (cache (new_cache :: (nat, nat) idb_cache)) 4"
    by (simp add: new_cache_def map_has_def)
  have h2: "get (Fulfilled None :: (unit, nat option) promise) new_cache (4::nat) =
       (Fulfilled None, \<lparr>cache = [(4, None)], idb_calls = [IdbGet 4]\<rparr>)"
    by (simp add: get_def get_sync_def get_then_def new_cache_def map_has_def)
  show ?thesis
    using h1 h2
      cold_get_once [OF h1 h2, of "Rejected ()"
        "[GetCall 5, GetSettled 4 (Rejected ()), GetBatch [4, 5] (Rejected ()),
          GetSettled 5 (Fulfilled None)]" "()"]
    by (simp add: new_cache_def)
qed

section \<open>Key derivation (C5)\<close>

text \<open>
  C5 as stated fails: the pairs \<open>(a:b, c)\<close> and \<open>(a, b:c)\<close> differ and both derive the key
  \<open>a:b:c\<close>.
\<close>

theorem seen_key_collision_counterexample:
  "seen_key \<lparr>uri = ''a:b'', cid = ''c''\<rparr> = seen_key \<lparr>uri = ''a'', cid = ''b:c''\<rparr>
   \<and> \<lparr>uri = ''a:b'', cid = ''c''\<rparr> \<noteq> \<lparr>uri = ''a'', cid = ''b:c''\<rparr>"
  by (simp add: seen_key_def)

text \<open>
  C5, amended. The key is a function of the pair, and on pairs whose \<open>cid\<close> contains no
  colon (as on pairs whose \<open>uri\<close> contains none) two pairs derive the same key exactly when
  they are equal.
\<close>

theorem seen_key_injective_without_colon:
  "(CHR '':'' \<notin> set (cid p) \<and> CHR '':'' \<notin> set (cid q) \<longrightarrow>
      (seen_key p = seen_key q) = (p = q))
   \<and> (CHR '':'' \<notin> set (uri p) \<and> CHR '':'' \<notin> set (uri q) \<longrightarrow>
      (seen_key p = seen_key q) = (p = q))"
proof (intro conjI impI)
  assume a: "CHR '':'' \<notin> set (cid p) \<and> CHR '':'' \<notin> set (cid q)"
  have "(seen_key p = seen_key q) = (rev (seen_key p) = rev (seen_key q))"
    by simp
  also have "\<dots> = (rev (cid p) @ CHR '':'' # rev (uri p) = rev (cid q) @ CHR '':'' # rev (uri q))"
    by (simp add: seen_key_def)
  also have "\<dots> = (rev (cid p) = rev (cid q) \<and> rev (uri p) = rev (uri q))"
    using a split_at_first [of "CHR '':''" "rev (cid p)" "rev (cid q)" "rev (uri p)" "rev (uri q)"]
    by simp
  finally show "(seen_key p = seen_key q) = (p = q)"
    by (auto simp: post_ref_eq)
next
  assume a: "CHR '':'' \<notin> set (uri p) \<and> CHR '':'' \<notin> set (uri q)"
  then have "(seen_key p = seen_key q) = (uri p = uri q \<and> cid p = cid q)"
    using split_at_first [of "CHR '':''" "uri p" "uri q" "cid p" "cid q"]
    by (simp add: seen_key_def)
  then show "(seen_key p = seen_key q) = (p = q)"
    by (simp add: post_ref_eq)
qed

text \<open>
  The theorem at two posts of one \<open>uri\<close> with different colon-free \<open>cid\<close>s, and at two
  posts with different colon-free \<open>uri\<close>s.
\<close>

theorem seen_key_injective_without_colon_witness:
  "CHR '':'' \<notin> set (cid \<lparr>uri = ''at://did:plc:u1/app.bsky.feed.post/3k'', cid = ''bafy1''\<rparr>)
   \<and> CHR '':'' \<notin> set (cid \<lparr>uri = ''at://did:plc:u1/app.bsky.feed.post/3k'', cid = ''bafy2''\<rparr>)
   \<and> seen_key \<lparr>uri = ''at://did:plc:u1/app.bsky.feed.post/3k'', cid = ''bafy1''\<rparr> \<noteq>
       seen_key \<lparr>uri = ''at://did:plc:u1/app.bsky.feed.post/3k'', cid = ''bafy2''\<rparr>
   \<and> CHR '':'' \<notin> set (uri \<lparr>uri = ''a'', cid = ''b:c''\<rparr>)
   \<and> CHR '':'' \<notin> set (uri \<lparr>uri = ''b'', cid = ''b:c''\<rparr>)
   \<and> seen_key \<lparr>uri = ''a'', cid = ''b:c''\<rparr> \<noteq> seen_key \<lparr>uri = ''b'', cid = ''b:c''\<rparr>"
proof -
  have h1: "CHR '':'' \<notin> set (cid \<lparr>uri = ''at://did:plc:u1/app.bsky.feed.post/3k'', cid = ''bafy1''\<rparr>)
    \<and> CHR '':'' \<notin> set (cid \<lparr>uri = ''at://did:plc:u1/app.bsky.feed.post/3k'', cid = ''bafy2''\<rparr>)"
    by simp
  have h2: "CHR '':'' \<notin> set (uri \<lparr>uri = ''a'', cid = ''b:c''\<rparr>)
    \<and> CHR '':'' \<notin> set (uri \<lparr>uri = ''b'', cid = ''b:c''\<rparr>)"
    by simp
  have d1: "\<lparr>uri = ''at://did:plc:u1/app.bsky.feed.post/3k'', cid = ''bafy1''\<rparr> \<noteq>
      \<lparr>uri = ''at://did:plc:u1/app.bsky.feed.post/3k'', cid = ''bafy2''\<rparr>"
    by simp
  have d2: "\<lparr>uri = ''a'', cid = ''b:c''\<rparr> \<noteq> \<lparr>uri = ''b'', cid = ''b:c''\<rparr>"
    by simp
  show ?thesis
    using h1 h2 d1 d2
      seen_key_injective_without_colon
        [of "\<lparr>uri = ''at://did:plc:u1/app.bsky.feed.post/3k'', cid = ''bafy1''\<rparr>"
            "\<lparr>uri = ''at://did:plc:u1/app.bsky.feed.post/3k'', cid = ''bafy2''\<rparr>"]
      seen_key_injective_without_colon
        [of "\<lparr>uri = ''a'', cid = ''b:c''\<rparr>" "\<lparr>uri = ''b'', cid = ''b:c''\<rparr>"]
    by blast
qed

section \<open>A failing store read (C6)\<close>

text \<open>
  C6 as stated fails. On a fresh cache, a store read rejected with a reason makes
  \<open>get\<close> reject with that reason instead of resolving to \<^verbatim>\<open>undefined\<close>; the promise chain
  of \<^verbatim>\<open>useIsPostSeen\<close> ends in an unhandled rejection and a state that was "seen" stays
  "seen".
\<close>

theorem store_failure_counterexample:
  "fst (get (Rejected ''QuotaExceededError'') (new_cache :: (string, seen_post) idb_cache)
          ''at://x:c1'') = Rejected ''QuotaExceededError''
   \<and> fst (get (Rejected ''QuotaExceededError'') (new_cache :: (string, seen_post) idb_cache)
          ''at://x:c1'') \<noteq> Fulfilled None
   \<and> useIsPostSeen (Rejected ''QuotaExceededError'') new_cache
        \<lparr>uri = ''at://x'', cid = ''c1''\<rparr> True =
       (Some ''QuotaExceededError'', True,
        \<lparr>cache = [], idb_calls = [IdbGet ''at://x:c1'']\<rparr>)"
  by (simp add: useIsPostSeen_def get_def get_sync_def get_then_def new_cache_def map_has_def
      seen_key_def)

text \<open>
  C6, amended. When the store's read is rejected, \<open>get\<close> of a key that memory does not
  hold and \<open>getBatch\<close> of a list with such a key are rejected with the same reason, after
  the store call, and leave memory unchanged. The tracker has no rejection handler: the
  chain of \<^verbatim>\<open>useIsPostSeen\<close> and of \<^verbatim>\<open>useIsSliceSeen\<close> ends rejected with that reason,
  \<^verbatim>\<open>setIsSeen\<close> is not called and the reported state stays what it was.
\<close>

theorem store_failure_propagates:
  "(\<not> map_has (cache s) k \<longrightarrow>
      get (Rejected e) s k = (Rejected e, s\<lparr>idb_calls := idb_calls s @ [IdbGet k]\<rparr>))
   \<and> (\<not> list_all (map_has (cache s)) keys \<longrightarrow>
      getBatch (Rejected e) s keys =
        (Rejected e, s\<lparr>idb_calls := idb_calls s @ [IdbGetBatch keys]\<rparr>))
   \<and> (\<not> map_has (cache t) (seen_key p) \<longrightarrow>
      useIsPostSeen (Rejected e) t p isSeen =
        (Some e, isSeen, t\<lparr>idb_calls := idb_calls t @ [IdbGet (seen_key p)]\<rparr>))
   \<and> (items \<noteq> [] \<and> \<not> list_all (map_has (cache t)) (map seen_key items) \<longrightarrow>
      fst (useIsSliceSeen rg (Rejected e) t items isSeen) = Some e
      \<and> fst (snd (useIsSliceSeen rg (Rejected e) t items isSeen)) = isSeen)"
proof (intro conjI impI)
  assume "\<not> map_has (cache s) k"
  then show "get (Rejected e) s k = (Rejected e, s\<lparr>idb_calls := idb_calls s @ [IdbGet k]\<rparr>)"
    by (simp add: get_def get_sync_def get_then_def)
next
  assume cold: "\<not> list_all (map_has (cache s)) keys"
  show "getBatch (Rejected e) s keys =
        (Rejected e, s\<lparr>idb_calls := idb_calls s @ [IdbGetBatch keys]\<rparr>)"
    by (simp add: getBatch_cold [OF cold])
next
  assume "\<not> map_has (cache t) (seen_key p)"
  then show "useIsPostSeen (Rejected e) t p isSeen =
        (Some e, isSeen, t\<lparr>idb_calls := idb_calls t @ [IdbGet (seen_key p)]\<rparr>)"
    by (simp add: useIsPostSeen_eq)
next
  assume a: "items \<noteq> [] \<and> \<not> list_all (map_has (cache t)) (map seen_key items)"
  then show "fst (useIsSliceSeen rg (Rejected e) t items isSeen) = Some e"
    by (simp add: useIsSliceSeen_cold(1))
  from a show "fst (snd (useIsSliceSeen rg (Rejected e) t items isSeen)) = isSeen"
    by (simp add: useIsSliceSeen_cold(2))
qed

text \<open>
  The theorem at a fresh cache and the post \<open>(at://x, c1)\<close>.
\<close>

theorem store_failure_propagates_witness:
  "\<not> map_has (cache (new_cache :: (string, seen_post) idb_cache)) ''at://x:c1''
   \<and> get (Rejected ''QuotaExceededError'') (new_cache :: (string, seen_post) idb_cache)
        ''at://x:c1'' =
       (Rejected ''QuotaExceededError'', \<lparr>cache = [], idb_calls = [IdbGet ''at://x:c1'']\<rparr>)
   \<and> \<not> list_all (map_has (cache (new_cache :: (string, seen_post) idb_cache))) [''at://x:c1'']
   \<and> getBatch (Rejected ''QuotaExceededError'') (new_cache :: (string, seen_post) idb_cache)
        [''at://x:c1''] =
       (Rejected ''QuotaExceededError'',
        \<lparr>cache = [], idb_calls = [IdbGetBatch [''at://x:c1'']]\<rparr>)
   \<and> useIsPostSeen (Rejected ''QuotaExceededError'') new_cache
        \<lparr>uri = ''at://x'', cid = ''c1''\<rparr> True =
       (Some ''QuotaExceededError'', True, \<lparr>cache = [], idb_calls = [IdbGet ''at://x:c1'']\<rparr>)
   \<and> [\<lparr>uri = ''at://x'', cid = ''c1''\<rparr>] \<noteq> []
   \<and> fst (useIsSliceSeen (\<lambda>key. Fulfilled None) (Rejected ''QuotaExceededError'') new_cache
        [\<lparr>uri = ''at://x'', cid = ''c1''\<rparr>] True) = Some ''QuotaExceededError''
   \<and> fst (snd (useIsSliceSeen (\<lambda>key. Fulfilled None) (Rejected ''QuotaExceededError'') new_cache
        [\<lparr>uri = ''at://x'', cid = ''c1''\<rparr>] True)) = True"
proof -
  have k: "seen_key \<lparr>uri = ''at://x'', cid = ''c1''\<rparr> = ''at://x:c1''"
    by (simp add: seen_key_def)
  have h1: "\<not> map_has (cache (new_cache :: (string, seen_post) idb_cache)) ''at://x:c1''"
    by (simp add: new_cache_def map_has_def)
  have h2: "\<not> list_all (map_has (cache (new_cache :: (string, seen_post) idb_cache))) [''at://x:c1'']"
    by (simp add: new_cache_def map_has_def)
  show ?thesis
    using h1 h2 k
      store_failure_propagates [of "new_cache :: (string, seen_post) idb_cache" "''at://x:c1''"
        "''QuotaExceededError''" "[''at://x:c1'']" new_cache "\<lparr>uri = ''at://x'', cid = ''c1''\<rparr>"
        True "[\<lparr>uri = ''at://x'', cid = ''c1''\<rparr>]" "\<lambda>key. Fulfilled None"]
    by (simp add: new_cache_def)
qed

section \<open>Slice check and post checks (C7)\<close>

text \<open>
  C7 as stated fails. Post 1 was marked seen a moment ago, so memory holds it and the
  store does not yet; post 2 is in the store only. Each post check reports "seen", the
  first from memory and the second from the store. The slice check finds key 2 missing,
  takes the store's answer for both keys, in which key 1 is \<^verbatim>\<open>undefined\<close>, and reports
  "not seen".
\<close>

theorem slice_seen_counterexample:
  "fst (snd (useIsPostSeen
        (idb_get (map_of [(''at://x:c2'',
            \<lparr>post = \<lparr>uri = ''at://x'', cid = ''c2''\<rparr>, lastSeenAt = 1, lastSeenFeed = ''Home''\<rparr>)])
           ''at://x:c1'' :: (unit, seen_post option) promise)
        (setSeenPost 5 new_cache \<lparr>uri = ''at://x'', cid = ''c1''\<rparr> ''Home'')
        \<lparr>uri = ''at://x'', cid = ''c1''\<rparr> False))
   \<and> fst (snd (useIsPostSeen
        (idb_get (map_of [(''at://x:c2'',
            \<lparr>post = \<lparr>uri = ''at://x'', cid = ''c2''\<rparr>, lastSeenAt = 1, lastSeenFeed = ''Home''\<rparr>)])
           ''at://x:c2'' :: (unit, seen_post option) promise)
        (setSeenPost 5 new_cache \<lparr>uri = ''at://x'', cid = ''c1''\<rparr> ''Home'')
        \<lparr>uri = ''at://x'', cid = ''c2''\<rparr> False))
   \<and> \<not> fst (snd (useIsSliceSeen
        (idb_get (map_of [(''at://x:c2'',
            \<lparr>post = \<lparr>uri = ''at://x'', cid = ''c2''\<rparr>, lastSeenAt = 1, lastSeenFeed = ''Home''\<rparr>)]))
        (idb_getBatch (map_of [(''at://x:c2'',
            \<lparr>post = \<lparr>uri = ''at://x'', cid = ''c2''\<rparr>, lastSeenAt = 1, lastSeenFeed = ''Home''\<rparr>)])
           [''at://x:c1'', ''at://x:c2''] :: (unit, (string, seen_post) js_map) promise)
        (setSeenPost 5 new_cache \<lparr>uri = ''at://x'', cid = ''c1''\<rparr> ''Home'')
        [\<lparr>uri = ''at://x'', cid = ''c1''\<rparr>, \<lparr>uri = ''at://x'', cid = ''c2''\<rparr>] True))"
  by (simp add: useIsPostSeen_def useIsSliceSeen_def setSeenPost_def seen_key_def set_kv_def
      new_cache_def get_def get_sync_def get_then_def getBatch_sync_def getBatch_then_def
      idb_get_def idb_getBatch_def map_has_def map_get_def map_values_def)

text \<open>
  C7, amended. For a non-empty item list: when memory holds every key of the slice, the
  slice check reports the conjunction of the post checks on the same cache state. When a
  key is missing, it reports whether every value of the store's multi-get response is a
  record, whatever memory holds. With a store that answers single and batch reads from one
  content \<open>st\<close>, the slice check equals the conjunction of the post checks whenever memory
  holds, for each key of the slice it holds at all, the value \<open>st\<close> gives the key.
\<close>

theorem slice_seen:
  assumes "items \<noteq> []"
  shows "(list_all (map_has (cache s)) (map seen_key items) \<longrightarrow>
           fst (snd (useIsSliceSeen rg rb s items b)) =
             list_all (\<lambda>p. fst (snd (useIsPostSeen (rp p) s p b'))) items)
      \<and> (\<not> list_all (map_has (cache s)) (map seen_key items) \<longrightarrow>
           fst (snd (useIsSliceSeen rg (Fulfilled batch) s items b)) =
             list_all (\<lambda>seenPost. seenPost \<noteq> None) (map_values batch))
      \<and> (list_all (\<lambda>p. \<not> map_has (cache s) (seen_key p)
                        \<or> map_get (cache s) (seen_key p) = st (seen_key p)) items \<longrightarrow>
           fst (snd (useIsSliceSeen rg (idb_getBatch st (map seen_key items)) s items b)) =
             list_all (\<lambda>p. fst (snd (useIsPostSeen (idb_get st (seen_key p)) s p b'))) items)"
proof (intro conjI impI)
  assume res: "list_all (map_has (cache s)) (map seen_key items)"
  then show "fst (snd (useIsSliceSeen rg rb s items b)) =
             list_all (\<lambda>p. fst (snd (useIsPostSeen (rp p) s p b'))) items"
    by (simp add: useIsSliceSeen_resident [OF assms res] useIsPostSeen_eq list_all_iff)
next
  assume cold: "\<not> list_all (map_has (cache s)) (map seen_key items)"
  show "fst (snd (useIsSliceSeen rg (Fulfilled batch) s items b)) =
             list_all (\<lambda>seenPost. seenPost \<noteq> None) (map_values batch)"
    by (simp add: useIsSliceSeen_cold(2) [OF assms cold])
next
  assume agree: "list_all (\<lambda>p. \<not> map_has (cache s) (seen_key p)
                        \<or> map_get (cache s) (seen_key p) = st (seen_key p)) items"
  have posts: "list_all (\<lambda>p. fst (snd (useIsPostSeen (idb_get st (seen_key p)) s p b'))) items =
      list_all (\<lambda>p. st (seen_key p) \<noteq> None) items"
    using agree by (auto simp: useIsPostSeen_eq idb_get_def list_all_iff)
  show "fst (snd (useIsSliceSeen rg (idb_getBatch st (map seen_key items)) s items b)) =
             list_all (\<lambda>p. fst (snd (useIsPostSeen (idb_get st (seen_key p)) s p b'))) items"
  proof (cases "list_all (map_has (cache s)) (map seen_key items)")
    case True
    then have "list_all (\<lambda>p. map_get (cache s) (seen_key p) \<noteq> None) items =
        list_all (\<lambda>p. st (seen_key p) \<noteq> None) items"
      using agree by (auto simp: list_all_iff)
    then show ?thesis
      by (simp add: useIsSliceSeen_resident [OF assms True] posts)
  next
    case False
    have "list_all (\<lambda>seenPost. seenPost \<noteq> None)
            (map snd (fold (\<lambda>key m. map_set m key (st key)) (map seen_key items) [])) =
          list_all (\<lambda>key. st key \<noteq> None) (map seen_key items)"
      by (simp add: values_fold)
    also have "\<dots> = list_all (\<lambda>p. st (seen_key p) \<noteq> None) items"
      by (simp add: list_all_iff)
    finally show ?thesis
      by (simp add: useIsSliceSeen_cold(2) [OF assms False] posts idb_getBatch_def
          map_values_def)
  qed
qed

text \<open>
  The theorem at a cache that holds both posts of a slice, and at a fresh cache over an
  empty store.
\<close>

theorem slice_seen_witness:
  "[\<lparr>uri = ''at://x'', cid = ''c1''\<rparr>, \<lparr>uri = ''at://x'', cid = ''c2''\<rparr>] \<noteq> []
   \<and> list_all (map_has (cache
        (setSeenPost 6 (setSeenPost 5 new_cache \<lparr>uri = ''at://x'', cid = ''c1''\<rparr> ''Home'')
           \<lparr>uri = ''at://x'', cid = ''c2''\<rparr> ''Home'')))
        (map seen_key [\<lparr>uri = ''at://x'', cid = ''c1''\<rparr>, \<lparr>uri = ''at://x'', cid = ''c2''\<rparr>])
   \<and> fst (snd (useIsSliceSeen (\<lambda>key. Rejected ()) (Rejected ())
        (setSeenPost 6 (setSeenPost 5 new_cache \<lparr>uri = ''at://x'', cid = ''c1''\<rparr> ''Home'')
           \<lparr>uri = ''at://x'', cid = ''c2''\<rparr> ''Home'')
        [\<lparr>uri = ''at://x'', cid = ''c1''\<rparr>, \<lparr>uri = ''at://x'', cid = ''c2''\<rparr>] False))
   \<and> \<not> list_all (map_has (cache (new_cache :: (string, seen_post) idb_cache)))
        (map seen_key [\<lparr>uri = ''at://x'', cid = ''c1''\<rparr>, \<lparr>uri = ''at://x'', cid = ''c2''\<rparr>])
   \<and> \<not> fst (snd (useIsSliceSeen (\<lambda>key. Rejected ())
        (Fulfilled [(''at://x:c1'', None), (''at://x:c2'', None)]
           :: (unit, (string, seen_post) js_map) promise) new_cache
        [\<lparr>uri = ''at://x'', cid = ''c1''\<rparr>, \<lparr>uri = ''at://x'', cid = ''c2''\<rparr>] True))
   \<and> list_all (\<lambda>p. \<not> map_has (cache (new_cache :: (string, seen_post) idb_cache)) (seen_key p)
          \<or> map_get (cache (new_cache :: (string, seen_post) idb_cache)) (seen_key p) =
              Map.empty (seen_key p))
        [\<lparr>uri = ''at://x'', cid = ''c1''\<rparr>, \<lparr>uri = ''at://x'', cid = ''c2''\<rparr>]
   \<and> \<not> fst (snd (useIsSliceSeen (\<lambda>key. Rejected ())
        (idb_getBatch Map.empty
           (map seen_key [\<lparr>uri = ''at://x'', cid = ''c1''\<rparr>, \<lparr>uri = ''at://x'', cid = ''c2''\<rparr>])
           :: (unit, (string, seen_post) js_map) promise) new_cache
        [\<lparr>uri = ''at://x'', cid = ''c1''\<rparr>, \<lparr>uri = ''at://x'', cid = ''c2''\<rparr>] True))"
proof -
  have h0: "[\<lparr>uri = ''at://x'', cid = ''c1''\<rparr>, \<lparr>uri = ''at://x'', cid = ''c2''\<rparr>] \<noteq> []"
    by simp
  have h1: "list_all (map_has (cache
        (setSeenPost 6 (setSeenPost 5 new_cache \<lparr>uri = ''at://x'', cid = ''c1''\<rparr> ''Home'')
           \<lparr>uri = ''at://x'', cid = ''c2''\<rparr> ''Home'')))
        (map seen_key [\<lparr>uri = ''at://x'', cid = ''c1''\<rparr>, \<lparr>uri = ''at://x'', cid = ''c2''\<rparr>])"
    by (simp add: setSeenPost_def seen_key_def set_kv_def new_cache_def map_has_def)
  have h2: "\<not> list_all (map_has (cache (new_cache :: (string, seen_post) idb_cache)))
        (map seen_key [\<lparr>uri = ''at://x'', cid = ''c1''\<rparr>, \<lparr>uri = ''at://x'', cid = ''c2''\<rparr>])"
    by (simp add: new_cache_def map_has_def)
  have h3: "list_all (\<lambda>p. \<not> map_has (cache (new_cache :: (string, seen_post) idb_cache)) (seen_key p)
          \<or> map_get (cache (new_cache :: (string, seen_post) idb_cache)) (seen_key p) =
              Map.empty (seen_key p))
        [\<lparr>uri = ''at://x'', cid = ''c1''\<rparr>, \<lparr>uri = ''at://x'', cid = ''c2''\<rparr>]"
    by (simp add: new_cache_def map_has_def)
  show ?thesis
    using h0 h1 h2 h3
      slice_seen [OF h0,
        of "setSeenPost 6 (setSeenPost 5 new_cache \<lparr>uri = ''at://x'', cid = ''c1''\<rparr> ''Home'')
           \<lparr>uri = ''at://x'', cid = ''c2''\<rparr> ''Home''" "\<lambda>key. Rejected ()" "Rejected ()" False
           "\<lambda>p. Rejected ()" False "[]" Map.empty]
      slice_seen [OF h0, of new_cache "\<lambda>key. Rejected ()" "Rejected ()" True
           "\<lambda>p. Rejected ()" False "[(''at://x:c1'', None), (''at://x:c2'', None)]" Map.empty]
    by (simp add: useIsPostSeen_eq idb_get_def setSeenPost_def seen_key_def set_kv_def
        new_cache_def map_has_def map_get_def map_values_def)
qed

section \<open>The empty slice (C8)\<close>

text \<open>
  C8. For the empty item list the effect of \<^verbatim>\<open>useIsSliceSeen\<close> returns at its guard: the
  cache state, with its store calls, is untouched, no promise is made, and the reported
  state stays what it was, be it "seen" or "not seen".
\<close>

theorem empty_slice_keeps_state:
  "useIsSliceSeen rg rb s [] isSeen = (None, isSeen, s)"
  by (simp add: useIsSliceSeen_def)

section \<open>The alt-text ceiling (C9)\<close>

text \<open>
  C9. The code states the ceiling (the constant \<^verbatim>\<open>MAX_ALT_TEXT_LENGTH\<close>, the room check
  before the video note, the truncation to exactly 2000 characters) and misses it on two
  paths. On the main path the proxy answers the main request with 2500 characters and the
  condensation request with 2001: \<^verbatim>\<open>condenseAltText\<close> returns the answer without looking
  at its length and \<^verbatim>\<open>generateAltTextViaProxy\<close> returns 2001 characters. On the retry
  path, taken after the main request fails with \<^verbatim>\<open>TypeError: Failed to fetch\<close>, the proxy
  answers the simplified request with 2001 characters, which are returned with neither a
  length check nor a condensation request.
\<close>

theorem alt_text_ceiling_missed:
  "generateAltTextViaProxy (Some ''https://proxy.example/f'')
     (\<lambda>request. case request of
        CondenseRequest directive text0 targetLength \<Rightarrow>
          Inr (Response True 200 ''OK''
                 (Inr (Json (Str (replicate 2001 (CHR ''b''))) Undefined)) None)
      | _ \<Rightarrow> Inr (Response True 200 ''OK''
                 (Inr (Json (Str (replicate 2500 (CHR ''a''))) Undefined)) None))
     (Inr (''QUJD'', ''image/png'')) False = AltText (Str (replicate 2001 (CHR ''b'')))
   \<and> generateAltTextViaProxy (Some ''https://proxy.example/f'')
     (\<lambda>request. case request of
        SimpleRequest base64Data mimeType isVideo fileName \<Rightarrow>
          Inr (Response True 200 ''OK''
                 (Inr (Json (Str (replicate 2001 (CHR ''a''))) Undefined)) None)
      | _ \<Rightarrow> Inl (Exn ''TypeError'' ''Failed to fetch''))
     (Inr (''QUJD'', ''image/png'')) False = AltText (Str (replicate 2001 (CHR ''a'')))
   \<and> MAX_ALT_TEXT_LENGTH < length (replicate 2001 (CHR ''b''))
   \<and> MAX_ALT_TEXT_LENGTH < length (replicate 2001 (CHR ''a''))"
  by (simp add: generateAltTextViaProxy_def condenseAltText_def condensingRequest_def
      catch_fetch_error_def url_set_def MAX_ALT_TEXT_LENGTH_def Let_def)

text \<open>The first input again: the alt text returned has 2001 characters.\<close>

theorem alt_text_ceiling_missed_witness:
  "\<exists>t. generateAltTextViaProxy (Some ''https://proxy.example/f'')
     (\<lambda>request. case request of
        CondenseRequest directive text0 targetLength \<Rightarrow>
          Inr (Response True 200 ''OK''
                 (Inr (Json (Str (replicate 2001 (CHR ''b''))) Undefined)) None)
      | _ \<Rightarrow> Inr (Response True 200 ''OK''
                 (Inr (Json (Str (replicate 2500 (CHR ''a''))) Undefined)) None))
     (Inr (''QUJD'', ''image/png'')) False = AltText (Str t)
   \<and> length t = 2001"
proof -
  from alt_text_ceiling_missed
  have "generateAltTextViaProxy (Some ''https://proxy.example/f'')
     (\<lambda>request. case request of
        CondenseRequest directive text0 targetLength \<Rightarrow>
          Inr (Response True 200 ''OK''
                 (Inr (Json (Str (replicate 2001 (CHR ''b''))) Undefined)) None)
      | _ \<Rightarrow> Inr (Response True 200 ''OK''
                 (Inr (Json (Str (replicate 2500 (CHR ''a''))) Undefined)) None))
     (Inr (''QUJD'', ''image/png'')) False = AltText (Str (replicate 2001 (CHR ''b'')))"
    by (rule conjunct1)
  moreover have "length (replicate 2001 (CHR ''b'')) = 2001"
    by simp
  ultimately show ?thesis by blast
qed

section \<open>What a batch that reaches the store returns (C10)\<close>

text \<open>
  C10. When memory lacks a key of the list and the store fulfils the multi-get, the
  mapping \<open>getBatch\<close> returns is the store's response itself; memory values are not merged
  into it. So there is a state, the one after \<open>set(1, 7)\<close> on a fresh cache, in which
  \<open>get(1)\<close> returns 7 while \<open>getBatch([1, 2])\<close> returns a mapping that gives key 1
  \<^verbatim>\<open>undefined\<close>.
\<close>

theorem getBatch_returns_store_response:
  "(\<not> list_all (map_has (cache s)) keys \<longrightarrow>
      fst (getBatch (Fulfilled batch) s keys) = Fulfilled batch)
   \<and> (\<exists>s0 keys0 batch0 k.
        \<not> list_all (map_has (cache s0)) keys0 \<and> k \<in> set keys0
        \<and> fst (getBatch (Fulfilled batch0 :: (unit, (nat, nat) js_map) promise) s0 keys0) =
            Fulfilled batch0
        \<and> fst (get (Rejected ()) s0 k) = Fulfilled (Some 7)
        \<and> map_get batch0 k = None)"
proof (intro conjI impI)
  assume cold: "\<not> list_all (map_has (cache s)) keys"
  show "fst (getBatch (Fulfilled batch) s keys) = Fulfilled batch"
    by (simp add: getBatch_cold [OF cold])
next
  have "\<not> list_all (map_has (cache (set_kv new_cache (1::nat) (7::nat)))) [1, 2] \<and> 1 \<in> set [1, 2::nat]
        \<and> fst (getBatch (Fulfilled [(1, None), (2, None)] :: (unit, (nat, nat) js_map) promise)
              (set_kv new_cache 1 7) [1, 2]) = Fulfilled [(1, None), (2, None)]
        \<and> fst (get (Rejected ()) (set_kv new_cache (1::nat) (7::nat)) 1) = Fulfilled (Some 7)
        \<and> map_get [(1::nat, None :: nat option), (2, None)] 1 = None"
    by (simp add: set_kv_def new_cache_def map_has_def map_get_def get_def get_sync_def
        getBatch_def getBatch_sync_def getBatch_then_def)
  then show "\<exists>s0 keys0 batch0 k.
        \<not> list_all (map_has (cache s0)) keys0 \<and> k \<in> set keys0
        \<and> fst (getBatch (Fulfilled batch0 :: (unit, (nat, nat) js_map) promise) s0 keys0) =
            Fulfilled batch0
        \<and> fst (get (Rejected ()) s0 k) = Fulfilled (Some 7)
        \<and> map_get batch0 k = None"
    by blast
qed

text \<open>
  The theorem at the cache after \<open>set(1, 7)\<close> and the key list \<open>[1, 2]\<close>.
\<close>

theorem getBatch_returns_store_response_witness:
  "\<not> list_all (map_has (cache (set_kv new_cache (1::nat) (7::nat)))) [1, 2]
   \<and> fst (getBatch (Fulfilled [(1, None), (2, None)] :: (unit, (nat, nat) js_map) promise)
          (set_kv new_cache 1 7) [1, 2]) = Fulfilled [(1, None), (2, None)]"
proof -
  have h: "\<not> list_all (map_has (cache (set_kv new_cache (1::nat) (7::nat)))) [1, 2]"
    by (simp add: set_kv_def new_cache_def map_has_def)
  show ?thesis
    using h getBatch_returns_store_response [of "set_kv new_cache (1::nat) (7::nat)" "[1, 2]"
        "[(1, None), (2, None)]"]
    by blast
qed

end
